theory Spec2Isabelle
  imports Complex_Main "HOL-Library.Char_ord" "HOL-Library.List_Lexorder"
begin

section \<open>JSON values as Python sees them\<close>

text \<open>
  A tool's \<open>inputSchema\<close> is a Python \<open>dict\<close> obtained from JSON. Its values are
  \<open>None\<close>, \<open>bool\<close>, \<open>int\<close> (unbounded), \<open>float\<close>, \<open>str\<close>, \<open>list\<close> and \<open>dict\<close> with
  string keys in insertion order. A float is represented by its exact value (a finite
  double other than negative zero); the text that \<open>str\<close> prints for it is not computed
  here: every function that prints one takes the printer as its parameter \<open>fs\<close>.
  A \<open>dict\<close> is an association list whose keys are pairwise distinct; lookup takes the
  first entry of a key.
\<close>

datatype json =
    JNull
  | JBool bool
  | JInt int
  | JFloat rat
  | JStr string
  | JList "json list"
  | JObj "(string \<times> json) list"

text \<open>
  The exceptions that the modelled code can raise. \<open>ClientError\<close> stands for whatever the
  MCP client raises (a failed connection, a transport failure, an error reported by the
  remote tool), with its message.
\<close>

datatype exn = AttributeError | TypeError | ValueError | SyntaxError | ClientError string

type_synonym 'a result = "exn + 'a"

text \<open>
  A loop that calls \<open>f\<close> on each element in turn and collects the results; the first
  exception ends it.
\<close>

fun traverse :: "('a \<Rightarrow> 'b result) \<Rightarrow> 'a list \<Rightarrow> 'b list result" where
  "traverse f [] = Inr []"
| "traverse f (x # xs) =
     (case f x of
        Inl e \<Rightarrow> Inl e
      | Inr y \<Rightarrow> (case traverse f xs of Inl e \<Rightarrow> Inl e | Inr ys \<Rightarrow> Inr (y # ys)))"

lemma traverse_cong [fundef_cong]:
  "xs = ys \<Longrightarrow> (\<And>x. x \<in> set ys \<Longrightarrow> f x = g x) \<Longrightarrow> traverse f xs = traverse g ys"
  by (induction ys arbitrary: xs) (auto split: sum.splits)

text \<open>
  The operations on a \<open>dict\<close> that the code uses: \<open>k in d\<close>, \<open>d.get(k)\<close> (\<open>None\<close> when the
  key is missing), \<open>d.get(k, dflt)\<close>, and \<open>d[k] = v\<close> on a copy, which keeps the position
  of a key that is present.
\<close>

definition has_key :: "(string \<times> json) list \<Rightarrow> string \<Rightarrow> bool" where
  "has_key d k = (map_of d k \<noteq> None)"

definition dict_get :: "(string \<times> json) list \<Rightarrow> string \<Rightarrow> json" where
  "dict_get d k = (case map_of d k of None \<Rightarrow> JNull | Some v \<Rightarrow> v)"

definition dict_get_or :: "(string \<times> json) list \<Rightarrow> string \<Rightarrow> json \<Rightarrow> json" where
  "dict_get_or d k dflt = (case map_of d k of None \<Rightarrow> dflt | Some v \<Rightarrow> v)"

fun dict_set :: "(string \<times> json) list \<Rightarrow> string \<Rightarrow> json \<Rightarrow> (string \<times> json) list" where
  "dict_set [] k v = [(k, v)]"
| "dict_set (p # ps) k v = (if fst p = k then (k, v) # ps else p # dict_set ps k v)"

text \<open>
  What \<open>if x:\<close> tests, what \<open>for v in x\<close> runs over (the characters of a string, the keys
  of a dict; other values are not iterable), and \<open>p in s\<close> between strings.
\<close>

fun truthy :: "json \<Rightarrow> bool" where
  "truthy JNull = False"
| "truthy (JBool b) = b"
| "truthy (JInt i) = (i \<noteq> 0)"
| "truthy (JFloat q) = (q \<noteq> 0)"
| "truthy (JStr s) = (s \<noteq> [])"
| "truthy (JList xs) = (xs \<noteq> [])"
| "truthy (JObj d) = (d \<noteq> [])"

fun py_iter :: "json \<Rightarrow> json list result" where
  "py_iter (JList xs) = Inr xs"
| "py_iter (JStr s) = Inr (map (\<lambda>c. JStr [c]) s)"
| "py_iter (JObj d) = Inr (map (\<lambda>p. JStr (fst p)) d)"
| "py_iter _ = Inl TypeError"

fun starts_with :: "string \<Rightarrow> string \<Rightarrow> bool" where
  "starts_with [] s = True"
| "starts_with (c # cs) [] = False"
| "starts_with (c # cs) (x # xs) = (c = x \<and> starts_with cs xs)"

fun contains_str :: "string \<Rightarrow> string \<Rightarrow> bool" where
  "contains_str p [] = starts_with p []"
| "contains_str p (x # xs) = (starts_with p (x # xs) \<or> contains_str p xs)"

text \<open>\<open>sep.join(xs)\<close>, and \<open>str\<close> of an integer.\<close>

fun join :: "string \<Rightarrow> string list \<Rightarrow> string" where
  "join sep [] = []"
| "join sep [x] = x"
| "join sep (x # y # ys) = x @ sep @ join sep (y # ys)"

function str_nat :: "nat \<Rightarrow> string" where
  "str_nat n =
     (if n < 10 then [''0123456789'' ! n]
      else str_nat (n div 10) @ [''0123456789'' ! (n mod 10)])"
  by pat_completeness auto
termination
  by (relation "measure id") auto

declare str_nat.simps [simp del]

definition str_int :: "int \<Rightarrow> string" where
  "str_int i = (if i < 0 then CHR ''-'' # str_nat (nat (- i)) else str_nat (nat i))"

text \<open>
  The loops that append a type to \<open>value_types\<close> or \<open>unique_types\<close> unless it is already
  there, and the three shapes of the \<open>dict\<close> annotation that follow them.
\<close>

definition append_unique :: "string list \<Rightarrow> string list" where
  "append_unique ts = foldl (\<lambda>acc t. if t \<in> set acc then acc else acc @ [t]) [] ts"

definition dict_of_value_types :: "string list \<Rightarrow> string" where
  "dict_of_value_types value_types =
     (if length value_types = 1 then ''dict[str, '' @ hd value_types @ '']''
      else if length value_types > 1 then ''dict[str, Union['' @ join '', '' value_types @ '']]''
      else ''dict[str, Any]'')"

text \<open>
  The enum rule (the branch \<open>elif 'enum' in param_info\<close>). \<open>isinstance(v, int)\<close> holds for
  a \<open>bool\<close> too, and it is tested before \<open>isinstance(v, bool)\<close>, so a boolean counts as
  \<open>int\<close>. The kinds are collected in a set and joined in sorted order.
\<close>

fun is_str :: "json \<Rightarrow> bool" where
  "is_str (JStr s) = True"
| "is_str _ = False"

fun is_int :: "json \<Rightarrow> bool" where
  "is_int (JInt i) = True"
| "is_int (JBool b) = True"
| "is_int _ = False"

fun is_int_or_float :: "json \<Rightarrow> bool" where
  "is_int_or_float (JInt i) = True"
| "is_int_or_float (JBool b) = True"
| "is_int_or_float (JFloat q) = True"
| "is_int_or_float _ = False"

fun quoted :: "json \<Rightarrow> string" where
  "quoted (JStr s) = [CHR 0x22] @ s @ [CHR 0x22]"
| "quoted _ = []"

fun num_str :: "(rat \<Rightarrow> string) \<Rightarrow> json \<Rightarrow> string" where
  "num_str fs (JInt i) = str_int i"
| "num_str fs (JBool b) = (if b then ''True'' else ''False'')"
| "num_str fs (JFloat q) = fs q"
| "num_str fs _ = []"

fun enum_kind :: "json \<Rightarrow> string" where
  "enum_kind (JStr s) = ''str''"
| "enum_kind (JInt i) = ''int''"
| "enum_kind (JBool b) = ''int''"
| "enum_kind (JFloat q) = ''float''"
| "enum_kind _ = ''Any''"

definition enum_type :: "(rat \<Rightarrow> string) \<Rightarrow> json \<Rightarrow> string result" where
  "enum_type fs enum_values =
     (if truthy enum_values then
        (case py_iter enum_values of
           Inl e \<Rightarrow> Inl e
         | Inr vs \<Rightarrow>
             if list_all is_str vs then
               Inr (''Literal['' @ join '', '' (map quoted vs) @ '']'')
             else if list_all is_int vs then
               Inr (''Literal['' @ join '', '' (map (num_str fs) vs) @ '']'')
             else if list_all is_int_or_float vs then
               Inr (''Literal['' @ join '', '' (map (num_str fs) vs) @ '']'')
             else
               Inr (''Union['' @ join '', '' (sort (remdups (map enum_kind vs))) @ '']''))
      else Inr ''str'')"

subsection \<open>\<open>dict.update\<close> with an arbitrary argument\<close>

text \<open>
  \<open>all_properties.update(props)\<close> takes whatever \<open>schema.get('properties', {})\<close> returns.
  A dict is merged key by key. Anything else is iterated, and each element must itself
  yield exactly two values, a hashable key and a value. Keys compare as Python compares
  them (\<open>True == 1 == 1.0\<close>); a key that is present keeps its position.
\<close>

fun hashable :: "json \<Rightarrow> bool" where
  "hashable (JList xs) = False"
| "hashable (JObj d) = False"
| "hashable _ = True"

fun key_eq :: "json \<Rightarrow> json \<Rightarrow> bool" where
  "key_eq JNull JNull = True"
| "key_eq (JStr s) (JStr t) = (s = t)"
| "key_eq (JBool a) (JBool b) = (a = b)"
| "key_eq (JBool a) (JInt j) = ((if a then 1 else 0) = j)"
| "key_eq (JBool a) (JFloat q) = ((if a then 1 else 0) = q)"
| "key_eq (JInt i) (JBool b) = (i = (if b then 1 else 0))"
| "key_eq (JInt i) (JInt j) = (i = j)"
| "key_eq (JInt i) (JFloat q) = (of_int i = q)"
| "key_eq (JFloat p) (JBool b) = (p = (if b then 1 else 0))"
| "key_eq (JFloat p) (JInt j) = (p = of_int j)"
| "key_eq (JFloat p) (JFloat q) = (p = q)"
| "key_eq _ _ = False"

fun setitem :: "(json \<times> json) list \<Rightarrow> json \<Rightarrow> json \<Rightarrow> (json \<times> json) list" where
  "setitem [] k v = [(k, v)]"
| "setitem (p # ps) k v = (if key_eq (fst p) k then (fst p, v) # ps else p # setitem ps k v)"

definition pair_item :: "json \<Rightarrow> (json \<times> json) result" where
  "pair_item x =
     (case py_iter x of
        Inl e \<Rightarrow> Inl e
      | Inr ys \<Rightarrow>
          (case ys of
             [k, v] \<Rightarrow> if hashable k then Inr (k, v) else Inl TypeError
           | _ \<Rightarrow> Inl ValueError))"

definition update_items :: "json \<Rightarrow> (json \<times> json) list result" where
  "update_items other =
     (case other of
        JObj d \<Rightarrow> Inr (map (\<lambda>p. (JStr (fst p), snd p)) d)
      | _ \<Rightarrow> (case py_iter other of Inl e \<Rightarrow> Inl e | Inr xs \<Rightarrow> traverse pair_item xs))"

definition dict_update :: "(json \<times> json) list \<Rightarrow> json \<Rightarrow> (json \<times> json) list result" where
  "dict_update acc other =
     (case update_items other of
        Inl e \<Rightarrow> Inl e
      | Inr kvs \<Rightarrow> Inr (foldl (\<lambda>a p. setitem a (fst p) (snd p)) acc kvs))"

text \<open>
  The loop over \<open>all_schemas\<close> in the \<open>allOf\<close> branch: it returns \<open>all_object\<close> and
  \<open>all_properties\<close>, and stops at the first member whose type is not \<open>object\<close>.
\<close>

fun allof_loop :: "json list \<Rightarrow> (json \<times> json) list \<Rightarrow> (bool \<times> (json \<times> json) list) result" where
  "allof_loop [] all_properties = Inr (True, all_properties)"
| "allof_loop (schema # rest) all_properties =
     (case schema of
        JObj d \<Rightarrow>
          if dict_get d ''type'' = JStr ''object'' then
            (case dict_update all_properties (dict_get_or d ''properties'' (JObj [])) of
               Inl e \<Rightarrow> Inl e
             | Inr all_properties' \<Rightarrow> allof_loop rest all_properties')
          else Inr (False, all_properties)
      | _ \<Rightarrow> Inl AttributeError)"


subsection \<open>The resolver \<open>get_python_type\<close>\<close>

text \<open>
  \<open>get_python_type\<close> returns the text of a Python type annotation. Its argument is any
  JSON value, since the recursive calls pass on whatever a schema holds under \<open>items\<close>,
  \<open>properties\<close>, \<open>anyOf\<close>, \<open>oneOf\<close> and \<open>allOf\<close>. The lemmas before the definition bound
  the size of those values; they give the termination proof.
\<close>

definition any_marker :: "(string \<times> json) list \<Rightarrow> bool" where
  "any_marker d = list_ex (has_key d) [''anyOf'', ''oneOf'', ''allOf'', ''enum'', ''$ref'']"

lemma size_dict_value: "(k, v) \<in> set d \<Longrightarrow> size v < size (JObj d)"
  by (induction d) auto

lemma size_map_of: "map_of d k = Some v \<Longrightarrow> size v < size (JObj d)"
  by (metis map_of_SomeD size_dict_value)

lemma size_dict_get: "dict_get d k = v \<Longrightarrow> v \<noteq> JNull \<Longrightarrow> size v < size (JObj d)"
  unfolding dict_get_def by (cases "map_of d k") (auto simp del: json.size dest: size_map_of)

lemma size_dict_get_or: "dict_get_or d k (JObj []) = v \<Longrightarrow> truthy v \<Longrightarrow> size v < size (JObj d)"
  unfolding dict_get_or_def by (cases "map_of d k") (auto simp del: json.size dest: size_map_of)

lemma size_list_elem: "x \<in> set xs \<Longrightarrow> size x < size (JList xs)"
  by (induction xs) auto

lemma size_py_iter: "py_iter v = Inr xs \<Longrightarrow> x \<in> set xs \<Longrightarrow> size x < Suc (size v)"
  by (cases v) (auto dest: size_list_elem)

lemma size_dict_set:
  "map_of d k = Some (JList ts) \<Longrightarrow> t \<in> set ts \<Longrightarrow> size (JObj (dict_set d k t)) < size (JObj d)"
proof (induction d)
  case Nil
  then show ?case by simp
next
  case (Cons p ps)
  show ?case
  proof (cases "fst p = k")
    case True
    with Cons.prems have "snd p = JList ts" by (cases p) auto
    with True Cons.prems(2) show ?thesis
      using size_list_elem [of t ts] by (cases p) auto
  next
    case False
    with Cons show ?thesis by (cases p) auto
  qed
qed

lemma setitem_values: "snd ` set (setitem a k v) \<subseteq> insert v (snd ` set a)"
  by (induction a) auto

lemma foldl_setitem_values:
  "snd ` set (foldl (\<lambda>a p. setitem a (fst p) (snd p)) acc kvs) \<subseteq> snd ` set acc \<union> snd ` set kvs"
proof (induction kvs arbitrary: acc)
  case Nil
  then show ?case by simp
next
  case (Cons p kvs)
  have "snd ` set (foldl (\<lambda>a p. setitem a (fst p) (snd p)) (setitem acc (fst p) (snd p)) kvs)
          \<subseteq> snd ` set (setitem acc (fst p) (snd p)) \<union> snd ` set kvs"
    by (rule Cons.IH)
  also have "\<dots> \<subseteq> insert (snd p) (snd ` set acc) \<union> snd ` set kvs"
    using setitem_values [of acc "fst p" "snd p"] by blast
  finally show ?case by auto
qed

lemma pair_item_size: "pair_item x = Inr (k, v) \<Longrightarrow> size v < Suc (size x)"
  unfolding pair_item_def
  by (auto split: sum.splits list.splits if_splits dest!: size_py_iter [where x = v])

lemma traverse_pair_item_size:
  "traverse pair_item xs = Inr kvs \<Longrightarrow> v \<in> snd ` set kvs \<Longrightarrow> \<exists>x\<in>set xs. size v < Suc (size x)"
proof (induction xs arbitrary: kvs)
  case Nil
  then show ?case by simp
next
  case (Cons x xs)
  from Cons.prems(1) obtain y ys where y: "pair_item x = Inr y" and ys: "traverse pair_item xs = Inr ys"
    and kvs: "kvs = y # ys"
    by (auto split: sum.splits)
  show ?case
  proof (cases "v = snd y")
    case True
    with y have "size v < Suc (size x)" using pair_item_size [of x "fst y" "snd y"] by simp
    then show ?thesis by auto
  next
    case False
    with Cons.prems(2) kvs have "v \<in> snd ` set ys" by auto
    with Cons.IH [OF ys] show ?thesis by auto
  qed
qed

lemma update_items_size:
  assumes "update_items other = Inr kvs" and "v \<in> snd ` set kvs"
  shows "size v < Suc (size other)"
proof (cases other)
  case (JObj d)
  with assms have "v \<in> snd ` set d" by (auto simp: update_items_def)
  then obtain k where "(k, v) \<in> set d" by auto
  with JObj show ?thesis using size_dict_value [of k v d] by simp
next
  case (JList xs)
  with assms have "traverse pair_item xs = Inr kvs" by (simp add: update_items_def)
  from traverse_pair_item_size [OF this assms(2)] obtain x where "x \<in> set xs" "size v < Suc (size x)"
    by auto
  with JList show ?thesis using size_list_elem [of x xs] by simp
next
  case (JStr s)
  with assms have t: "traverse pair_item (map (\<lambda>c. JStr [c]) s) = Inr kvs"
    by (simp add: update_items_def)
  from traverse_pair_item_size [OF t assms(2)] obtain x where "x \<in> set (map (\<lambda>c. JStr [c]) s)"
    "size v < Suc (size x)" by auto
  then have "size v = 0" by auto
  then show ?thesis by simp
qed (use assms in \<open>auto simp: update_items_def\<close>)

lemma allof_loop_size:
  "allof_loop ss acc = Inr (b, props) \<Longrightarrow> v \<in> snd ` set props \<Longrightarrow>
   v \<in> snd ` set acc \<or> (\<exists>s\<in>set ss. size v < size s)"
proof (induction ss arbitrary: acc)
  case Nil
  then show ?case by simp
next
  case (Cons s ss)
  show ?case
  proof (cases s)
    case (JObj d)
    show ?thesis
    proof (cases "dict_get d ''type'' = JStr ''object''")
      case True
      define other where "other = dict_get_or d ''properties'' (JObj [])"
      from Cons.prems(1) JObj True obtain kvs where kvs: "update_items other = Inr kvs"
        and rest: "allof_loop ss (foldl (\<lambda>a p. setitem a (fst p) (snd p)) acc kvs) = Inr (b, props)"
        by (auto simp: dict_update_def other_def split: sum.splits)
      from Cons.IH [OF rest Cons.prems(2)]
      consider "v \<in> snd ` set (foldl (\<lambda>a p. setitem a (fst p) (snd p)) acc kvs)"
        | "\<exists>s\<in>set ss. size v < size s" by blast
      then show ?thesis
      proof cases
        case 1
        with foldl_setitem_values [of acc kvs] consider "v \<in> snd ` set acc" | "v \<in> snd ` set kvs"
          by blast
        then show ?thesis
        proof cases
          case 1
          then show ?thesis by simp
        next
          case 2
          have le: "size v < Suc (size other)" by (rule update_items_size [OF kvs 2])
          have "size other < size (JObj d)"
          proof (cases "map_of d ''properties''")
            case None
            with kvs 2 show ?thesis by (simp add: other_def dict_get_or_def update_items_def)
          next
            case (Some w)
            then show ?thesis using size_map_of [OF Some] by (simp add: other_def dict_get_or_def)
          qed
          with le JObj show ?thesis by auto
        qed
      next
        case 2
        then show ?thesis by auto
      qed
    next
      case False
      with Cons.prems JObj show ?thesis by auto
    qed
  qed (use Cons.prems in auto)
qed

lemma size_truthy_get_or:
  assumes "truthy (dict_get_or d k dflt)" and "\<not> truthy dflt \<or> size dflt < size (JObj d)"
  shows "size (dict_get_or d k dflt) < size (JObj d)"
proof (cases "map_of d k")
  case None
  with assms show ?thesis by (auto simp: dict_get_or_def)
next
  case (Some v)
  then show ?thesis using size_map_of [OF Some] by (simp add: dict_get_or_def)
qed

lemma term_type_list:
  "JList ts = dict_get d k \<Longrightarrow> t \<in> set ts \<Longrightarrow> size (JObj (dict_set d k t)) < size (JObj d)"
proof -
  assume a: "JList ts = dict_get d k" and t: "t \<in> set ts"
  then have "map_of d k = Some (JList ts)"
    by (cases "map_of d k") (auto simp: dict_get_def)
  from size_dict_set [OF this t] show ?thesis .
qed

lemma term_get_or: "truthy (dict_get_or d k (JObj [])) \<Longrightarrow> size (dict_get_or d k (JObj [])) < size (JObj d)"
  by (rule size_truthy_get_or) simp_all

lemma term_properties:
  assumes "JObj props = dict_get_or d k (JObj [])" and "v \<in> snd ` set props"
  shows "size v < size (JObj d)"
proof -
  from assms(2) obtain k' where kv: "(k', v) \<in> set props" by auto
  then have "props \<noteq> []" by auto
  with assms(1) have "truthy (dict_get_or d k (JObj []))" by (metis truthy.simps(7))
  then have "size (dict_get_or d k (JObj [])) < size (JObj d)" by (rule term_get_or)
  moreover have "size v < size (JObj props)" using kv by (rule size_dict_value)
  ultimately show ?thesis using assms(1) by (metis less_trans)
qed

lemma term_get: "truthy (dict_get d k) \<Longrightarrow> size (dict_get d k) < size (JObj d)"
proof -
  assume t: "truthy (dict_get d k)"
  then have "dict_get d k \<noteq> JNull" by auto
  then show ?thesis using size_dict_get by blast
qed

lemma term_iter:
  assumes "size v < n" and "py_iter v = Inr xs" and "x \<in> set xs"
  shows "size x < n"
  using size_py_iter [OF assms(2,3)] assms(1) by linarith

lemma term_any_of:
  assumes "truthy (dict_get_or d k (dict_get_or d k' (JList [])))"
    and "py_iter (dict_get_or d k (dict_get_or d k' (JList []))) = Inr b" and "x \<in> set b"
  shows "size x < size (JObj d)"
proof -
  have "\<not> truthy (dict_get_or d k' (JList [])) \<or> size (dict_get_or d k' (JList [])) < size (JObj d)"
    using size_truthy_get_or [of d k' "JList []"] by auto
  with assms(1) have "size (dict_get_or d k (dict_get_or d k' (JList []))) < size (JObj d)"
    by (rule size_truthy_get_or)
  then show ?thesis using assms(2,3) by (rule term_iter)
qed

lemma term_all_of:
  assumes "truthy (dict_get_or d k (JList []))"
    and "py_iter (dict_get_or d k (JList [])) = Inr b"
    and "allof_loop b [] = Inr (ao, y)" and "v \<in> snd ` set y"
  shows "size v < size (JObj d)"
proof -
  from allof_loop_size [OF assms(3,4)] obtain s where s: "s \<in> set b" "size v < size s" by auto
  have "size (dict_get_or d k (JList [])) < size (JObj d)"
    using assms(1) by (rule size_truthy_get_or) simp
  then have "size s < size (JObj d)" using assms(2) s(1) by (rule term_iter)
  with s(2) show ?thesis by linarith
qed

function get_python_type :: "(rat \<Rightarrow> string) \<Rightarrow> json \<Rightarrow> string result" where
  "get_python_type fs param_info =
     (case param_info of
        JObj d \<Rightarrow>
          if has_key d ''$ref'' then Inr ''dict[str, Any]''
          else
            let param_type0 = dict_get d ''type'' in
            if (case param_type0 of JList ts \<Rightarrow> length ts \<noteq> 1 | _ \<Rightarrow> False) then
              (case param_type0 of
                 JList ts \<Rightarrow>
                   (case traverse (\<lambda>t. get_python_type fs (JObj (dict_set d ''type'' t))) ts of
                      Inl e \<Rightarrow> Inl e
                    | Inr type_variants \<Rightarrow> Inr (''Union['' @ join '', '' type_variants @ '']''))
               | _ \<Rightarrow> Inl TypeError)
            else
              let param_type = (case param_type0 of JList ts \<Rightarrow> hd ts | _ \<Rightarrow> param_type0) in
              if param_type = JStr ''integer'' then Inr ''int''
              else if param_type = JStr ''number'' then Inr ''float''
              else if param_type = JStr ''boolean'' then Inr ''bool''
              else if param_type = JStr ''array'' then
                (let items = dict_get_or d ''items'' (JObj []) in
                 if truthy items then
                   (case get_python_type fs items of
                      Inl e \<Rightarrow> Inl e
                    | Inr item_type \<Rightarrow> Inr (''list['' @ item_type @ '']''))
                 else Inr ''list[Any]'')
              else if param_type = JStr ''object'' then
                (let properties = dict_get_or d ''properties'' (JObj []) in
                 if truthy properties then
                   (case properties of
                      JObj props \<Rightarrow>
                        (case traverse (get_python_type fs) (map snd props) of
                           Inl e \<Rightarrow> Inl e
                         | Inr prop_types \<Rightarrow> Inr (dict_of_value_types (append_unique prop_types)))
                    | _ \<Rightarrow> Inl AttributeError)
                 else
                   (let additional_props = dict_get d ''additionalProperties'' in
                    if truthy additional_props \<and> (case additional_props of JObj a \<Rightarrow> True | _ \<Rightarrow> False) then
                      (case get_python_type fs additional_props of
                         Inl e \<Rightarrow> Inl e
                       | Inr value_type \<Rightarrow> Inr (''dict[str, '' @ value_type @ '']''))
                    else Inr ''dict[str, Any]''))
              else if param_type = JStr ''null'' then Inr ''type(None)''
              else if has_key d ''enum'' then enum_type fs (dict_get d ''enum'')
              else if param_type = JStr ''string'' then Inr ''str''
              else if has_key d ''anyOf'' \<or> has_key d ''oneOf'' then
                (let schemas = dict_get_or d ''anyOf'' (dict_get_or d ''oneOf'' (JList [])) in
                 if truthy schemas then
                   (case py_iter schemas of
                      Inl e \<Rightarrow> Inl e
                    | Inr ss \<Rightarrow>
                        (case traverse (get_python_type fs) ss of
                           Inl e \<Rightarrow> Inl e
                         | Inr union_types \<Rightarrow>
                             let unique_types = append_unique union_types in
                             if length unique_types = 1 then Inr (hd unique_types)
                             else Inr (''Union['' @ join '', '' unique_types @ '']'')))
                 else Inr ''Any'')
              else if has_key d ''allOf'' then
                (let all_schemas = dict_get_or d ''allOf'' (JList []) in
                 if truthy all_schemas then
                   (case py_iter all_schemas of
                      Inl e \<Rightarrow> Inl e
                    | Inr ss \<Rightarrow>
                        (case allof_loop ss [] of
                           Inl e \<Rightarrow> Inl e
                         | Inr (all_object, all_properties) \<Rightarrow>
                             if all_object \<and> all_properties \<noteq> [] then
                               (case traverse (get_python_type fs) (map snd all_properties) of
                                  Inl e \<Rightarrow> Inl e
                                | Inr prop_types \<Rightarrow> Inr (dict_of_value_types (append_unique prop_types)))
                             else Inr ''dict[str, Any]''))
                 else Inr ''dict[str, Any]'')
              else if param_type = JNull \<and> \<not> any_marker d then Inr ''Any''
              else Inr ''str''
      | JStr s \<Rightarrow> if contains_str ''$ref'' s then Inr ''dict[str, Any]'' else Inl AttributeError
      | JList xs \<Rightarrow> if JStr ''$ref'' \<in> set xs then Inr ''dict[str, Any]'' else Inl AttributeError
      | _ \<Rightarrow> Inl TypeError)"
  by pat_completeness auto
termination
  apply (relation "measure (\<lambda>(fs, j). size j)")
  apply simp
  apply (simp_all del: json.size)
  subgoal by (rule term_type_list)
  subgoal by (rule term_get_or)
  subgoal by (rule term_properties)
  subgoal by (rule term_get) simp
  subgoal by (rule term_any_of)
  subgoal by (rule term_all_of [where ao = True]) simp_all
  done

declare get_python_type.simps [simp del]

text \<open>
  Two readings of the \<open>type\<close> field that the resolver makes on its way: whether it is a
  list of kinds that is resolved kind by kind, and otherwise the single kind that the
  chain of comparisons looks at.
\<close>

definition multi_type :: "(string \<times> json) list \<Rightarrow> bool" where
  "multi_type d = (case dict_get d ''type'' of JList ts \<Rightarrow> length ts \<noteq> 1 | _ \<Rightarrow> False)"

definition single_type :: "(string \<times> json) list \<Rightarrow> json" where
  "single_type d = (case dict_get d ''type'' of JList ts \<Rightarrow> hd ts | _ \<Rightarrow> dict_get d ''type'')"

section \<open>Parameter definitions of a stub\<close>

text \<open>
  \<open>setup_proxy_tools\<close> writes one parameter definition per schema property, in one of
  three shapes: \<open>name: type\<close>, \<open>name: type = default\<close> and \<open>name: Optional[type] = None\<close>.
  The default is written as \<open>"{default_val}"\<close> for a string, as \<open>repr(default_val)\<close> for
  a list or dict and as \<open>{default_val}\<close> otherwise. A \<open>param_def\<close> keeps the shape, the
  name, the text of the type and the value that was printed.
\<close>

record tool =
  tool_name :: string
  tool_description :: string
  inputSchema :: "(string \<times> json) list"

datatype default_expr = DQuoted string | DRepr json | DStr json

datatype param_def =
    Required string string
  | Defaulted string string default_expr
  | OptionalNone string string

fun pname :: "param_def \<Rightarrow> string" where
  "pname (Required n t) = n"
| "pname (Defaulted n t e) = n"
| "pname (OptionalNone n t) = n"

fun ptype :: "param_def \<Rightarrow> string" where
  "ptype (Required n t) = t"
| "ptype (Defaulted n t e) = t"
| "ptype (OptionalNone n t) = t"

fun is_required :: "param_def \<Rightarrow> bool" where
  "is_required (Required n t) = True"
| "is_required _ = False"

fun default_of :: "param_def \<Rightarrow> default_expr option" where
  "default_of (Defaulted n t e) = Some e"
| "default_of _ = None"

fun py_in :: "string \<Rightarrow> json \<Rightarrow> bool result" where
  "py_in s (JList xs) = Inr (JStr s \<in> set xs)"
| "py_in s (JStr t) = Inr (contains_str s t)"
| "py_in s (JObj d) = Inr (has_key d s)"
| "py_in s _ = Inl TypeError"

definition render_default :: "json \<Rightarrow> default_expr" where
  "render_default default_val =
     (case default_val of
        JStr s \<Rightarrow> DQuoted s
      | JList xs \<Rightarrow> DRepr default_val
      | JObj d \<Rightarrow> DRepr default_val
      | _ \<Rightarrow> DStr default_val)"

definition param_def_of :: "(rat \<Rightarrow> string) \<Rightarrow> json \<Rightarrow> string \<Rightarrow> json \<Rightarrow> param_def result" where
  "param_def_of fs required param_name param_info =
     (case get_python_type fs param_info of
        Inl e \<Rightarrow> Inl e
      | Inr param_type \<Rightarrow>
          (case py_in param_name required of
             Inl e \<Rightarrow> Inl e
           | Inr True \<Rightarrow> Inr (Required param_name param_type)
           | Inr False \<Rightarrow>
               (case param_info of
                  JObj d \<Rightarrow>
                    let default_val = dict_get d ''default'' in
                    if default_val \<noteq> JNull then
                      Inr (Defaulted param_name param_type (render_default default_val))
                    else Inr (OptionalNone param_name param_type)
                | _ \<Rightarrow> Inl AttributeError)))"

definition build_params :: "(rat \<Rightarrow> string) \<Rightarrow> (string \<times> json) list \<Rightarrow> param_def list result" where
  "build_params fs schema =
     (let properties = dict_get_or schema ''properties'' (JObj []);
          required = dict_get_or schema ''required'' (JList [])
      in case properties of
           JObj props \<Rightarrow>
             traverse (\<lambda>p. param_def_of fs required (fst p) (snd p))
               (filter (\<lambda>p. fst p \<noteq> ''ctx'') props)
         | _ \<Rightarrow> Inl AttributeError)"

section \<open>The generated stub\<close>

text \<open>
  \<open>exec(func_code)\<close> hands the generated text to the Python compiler. This theory does
  not contain Python's grammar. It reads the text only where the text is certain to be
  the function it was meant to be, and answers \<open>Outside\<close> everywhere else: there
  \<open>exec\<close> may raise \<open>SyntaxError\<close> or define some other function, and nothing is said.
  The text is read when
  \<^item> the tool's name and every parameter's name is an ASCII identifier that starts with
    a py_letter and is not a Python keyword, and the parameter names are distinct;
  \<^item> the description consists of printable ASCII characters and line feeds, without
    double quote and backslash;
  \<^item> every string that an \<open>enum\<close> in the schema can put into a \<open>Literal[...]\<close> consists of
    printable ASCII characters without double quote and backslash, no \<open>enum\<close> lists a
    float, and no annotation contains \<open>Union[]\<close> or nests brackets deeper than 100;
  \<^item> every string default consists of printable ASCII characters without double quote
    and backslash (then \<open>"{default_val}"\<close> is a literal of that very string; \<open>repr\<close> of a
    list or dict, and \<open>str\<close> of a number or boolean, always read back as the value).
  Where the text is read and a parameter without default follows one with a default,
  \<open>exec\<close> raises \<open>SyntaxError\<close>; otherwise it defines the function.
\<close>

datatype 'a reading = Outside | Reads 'a

definition plain_char :: "char \<Rightarrow> bool" where
  "plain_char c = (32 \<le> (of_char c :: nat) \<and> (of_char c :: nat) \<le> 126 \<and> c \<noteq> CHR 0x22 \<and> c \<noteq> CHR 0x5C)"

definition plain_text :: "string \<Rightarrow> bool" where
  "plain_text s = list_all plain_char s"

definition plain_doc :: "string \<Rightarrow> bool" where
  "plain_doc s = list_all (\<lambda>c. plain_char c \<or> c = CHR 0x0A) s"

definition python_keywords :: "string list" where
  "python_keywords =
     [''False'', ''None'', ''True'', ''and'', ''as'', ''assert'', ''async'', ''await'', ''break'',
      ''class'', ''continue'', ''def'', ''del'', ''elif'', ''else'', ''except'', ''finally'', ''for'',
      ''from'', ''global'', ''if'', ''import'', ''in'', ''is'', ''lambda'', ''nonlocal'', ''not'',
      ''or'', ''pass'', ''raise'', ''return'', ''try'', ''while'', ''with'', ''yield'']"

definition py_letter :: "char \<Rightarrow> bool" where
  "py_letter c = (c \<in> set ''abcdefghijklmnopqrstuvwxyzABCDEFGHIJKLMNOPQRSTUVWXYZ'')"

definition py_identifier :: "string \<Rightarrow> bool" where
  "py_identifier s =
     ((case s of
         [] \<Rightarrow> False
       | c # cs \<Rightarrow> py_letter c \<and> list_all (\<lambda>x. py_letter x \<or> x \<in> set ''0123456789_'') cs)
      \<and> s \<notin> set python_keywords)"

fun enum_value_plain :: "json \<Rightarrow> bool" where
  "enum_value_plain (JStr s) = plain_text s"
| "enum_value_plain (JFloat q) = False"
| "enum_value_plain _ = True"

fun enum_values_plain :: "json \<Rightarrow> bool" where
  "enum_values_plain (JList xs) = list_all enum_value_plain xs"
| "enum_values_plain (JStr s) = plain_text s"
| "enum_values_plain (JObj d) = list_all (\<lambda>p. plain_text (fst p)) d"
| "enum_values_plain _ = True"

fun enums_plain :: "json \<Rightarrow> bool" where
  "enums_plain (JObj d) =
     list_all (\<lambda>p. (fst p = ''enum'' \<longrightarrow> enum_values_plain (snd p)) \<and> enums_plain (snd p)) d"
| "enums_plain (JList xs) = list_all enums_plain xs"
| "enums_plain _ = True"

fun default_value :: "default_expr \<Rightarrow> json option" where
  "default_value (DQuoted s) = (if plain_text s then Some (JStr s) else None)"
| "default_value (DRepr v) = Some v"
| "default_value (DStr v) = (case v of JStr s \<Rightarrow> None | _ \<Rightarrow> Some v)"

text \<open>
  A parameter of the compiled function: its name, the text of its annotation, and its
  default (\<open>None\<close> when it has none), which Python evaluates once, when the function is
  defined. Annotations are not checked by the function.
\<close>

datatype param = Param string string "json option"

fun p_name :: "param \<Rightarrow> string" where
  "p_name (Param n t d) = n"

fun p_default :: "param \<Rightarrow> json option" where
  "p_default (Param n t d) = d"

record stub =
  stub_name :: string
  stub_doc :: string
  stub_params :: "param list"

fun exec_param :: "param_def \<Rightarrow> param option" where
  "exec_param (Required n t) = Some (Param n t None)"
| "exec_param (Defaulted n t e) =
     (case default_value e of None \<Rightarrow> None | Some v \<Rightarrow> Some (Param n t (Some v)))"
| "exec_param (OptionalNone n t) = Some (Param n (''Optional['' @ t @ '']'') (Some JNull))"

fun exec_params :: "param_def list \<Rightarrow> param list option" where
  "exec_params [] = Some []"
| "exec_params (d # ds) =
     (case exec_param d of
        None \<Rightarrow> None
      | Some p \<Rightarrow> (case exec_params ds of None \<Rightarrow> None | Some ps \<Rightarrow> Some (p # ps)))"

fun bracket_depth :: "nat \<Rightarrow> string \<Rightarrow> nat" where
  "bracket_depth n [] = n"
| "bracket_depth n (c # cs) =
     (if c = CHR ''['' \<or> c = CHR ''('' then max (Suc n) (bracket_depth (Suc n) cs)
      else if c = CHR '']'' \<or> c = CHR '')'' then max n (bracket_depth (n - 1) cs)
      else bracket_depth n cs)"

definition annotation_reads :: "string \<Rightarrow> bool" where
  "annotation_reads ty = (\<not> contains_str ''Union[]'' ty \<and> bracket_depth 0 ty \<le> 100)"

definition text_reads :: "tool \<Rightarrow> param_def list \<Rightarrow> bool" where
  "text_reads t param_defs =
     (py_identifier (tool_name t) \<and> plain_doc (tool_description t) \<and>
      enums_plain (JObj (inputSchema t)) \<and>
      distinct (map pname param_defs) \<and>
      list_all (\<lambda>d. py_identifier (pname d) \<and> annotation_reads (ptype d)) param_defs)"

text \<open>
  Python refuses a parameter without a default after one with a default, so a schema
  that lists an optional property before a required one makes \<open>exec\<close> raise
  \<open>SyntaxError\<close>.
\<close>

fun defaults_trail :: "param_def list \<Rightarrow> bool" where
  "defaults_trail [] = True"
| "defaults_trail (Required n t # ps) = defaults_trail ps"
| "defaults_trail (p # ps) = list_all (\<lambda>q. \<not> is_required q) ps"

definition exec_func_code :: "tool \<Rightarrow> param_def list \<Rightarrow> stub result reading" where
  "exec_func_code t param_defs =
     (if \<not> text_reads t param_defs then Outside
      else
        (case exec_params param_defs of
           None \<Rightarrow> Outside
         | Some params \<Rightarrow>
             if defaults_trail param_defs then
               Reads (Inr \<lparr>stub_name = tool_name t, stub_doc = tool_description t, stub_params = params\<rparr>)
             else Reads (Inl SyntaxError)))"

definition build_stub :: "(rat \<Rightarrow> string) \<Rightarrow> tool \<Rightarrow> stub result reading" where
  "build_stub fs t =
     (case build_params fs (inputSchema t) of
        Inl e \<Rightarrow> Reads (Inl e)
      | Inr param_defs \<Rightarrow> exec_func_code t param_defs)"

text \<open>
  Calling the compiled function: Python binds the keyword arguments (an unknown keyword
  or a missing argument without default is a \<open>TypeError\<close>), and the body keeps the
  arguments that are not \<open>None\<close>.
\<close>

definition bind_param :: "(string \<times> json) list \<Rightarrow> param \<Rightarrow> (string \<times> json) result" where
  "bind_param kwargs p =
     (case map_of kwargs (p_name p) of
        Some v \<Rightarrow> Inr (p_name p, v)
      | None \<Rightarrow>
          (case p_default p of
             None \<Rightarrow> Inl TypeError
           | Some v \<Rightarrow> Inr (p_name p, v)))"

definition bind_args :: "param list \<Rightarrow> (string \<times> json) list \<Rightarrow> (string \<times> json) list result" where
  "bind_args params kwargs =
     (if list_all (\<lambda>kv. fst kv \<in> set (map p_name params)) kwargs then
        traverse (bind_param kwargs) params
      else Inl TypeError)"

definition call_args :: "(string \<times> json) list \<Rightarrow> (string \<times> json) list" where
  "call_args bound = filter (\<lambda>kv. snd kv \<noteq> JNull) bound"

section \<open>Sessions, discovery and registration\<close>

text \<open>
  The remote endpoint and the host are outside the repository. The endpoint is given by
  what its three operations answer; the host by whether its \<open>tool\<close> decorator raises,
  given what was published before. What the code does with them is recorded as a trace
  of events; a session is identified by the number of sessions opened before it.
  \<open>async with MCPClient(...)\<close> opens a session, runs its body and closes the session
  whether the body returns or raises; a failed connect opens nothing.
\<close>

datatype event =
    Open nat
  | ListTools nat
  | CallTool nat string "(string \<times> json) list"
  | Close nat
  | Publish stub

record world =
  trace :: "event list"
  sessions :: nat

record endpoint =
  connect :: "exn option"
  list_tools :: "tool list result"
  call_tool :: "string \<Rightarrow> (string \<times> json) list \<Rightarrow> json result"


definition emit :: "event \<Rightarrow> world \<Rightarrow> world" where
  "emit e w = w\<lparr>trace := trace w @ [e]\<rparr>"

definition with_client :: "endpoint \<Rightarrow> (nat \<Rightarrow> world \<Rightarrow> world \<times> 'a result) \<Rightarrow> world \<Rightarrow> world \<times> 'a result" where
  "with_client ep body w =
     (case connect ep of
        Some e \<Rightarrow> (w, Inl e)
      | None \<Rightarrow>
          let sid = sessions w;
              w1 = emit (Open sid) (w\<lparr>sessions := Suc sid\<rparr>);
              (w2, r) = body sid w1
          in (emit (Close sid) w2, r))"

text \<open>
  The body of the generated function refers to \<open>MCPClient\<close> and \<open>transport_config\<close> by
  name. A parameter called \<open>MCPClient\<close> is what the body then calls: no JSON value is
  callable, so the call raises \<open>TypeError\<close> before any session exists. With a parameter
  called \<open>transport_config\<close>, or a tool called by one of the two names, the client is
  built from a value this theory knows nothing about: \<open>Outside\<close>.
\<close>

definition call_stub :: "endpoint \<Rightarrow> stub \<Rightarrow> (string \<times> json) list \<Rightarrow> world \<Rightarrow> (world \<times> json result) reading" where
  "call_stub ep s kwargs w =
     (if stub_name s \<in> set [''MCPClient'', ''transport_config'']
         \<or> ''transport_config'' \<in> set (map p_name (stub_params s)) then Outside
      else
        (case bind_args (stub_params s) kwargs of
           Inl e \<Rightarrow> Reads (w, Inl e)
         | Inr bound \<Rightarrow>
             if ''MCPClient'' \<in> set (map p_name (stub_params s)) then Reads (w, Inl TypeError)
             else
               Reads (with_client ep
                 (\<lambda>sid w'. (emit (CallTool sid (stub_name s) (call_args bound)) w',
                            call_tool ep (stub_name s) (call_args bound)))
                 w)))"








fun is_bool :: "json \<Rightarrow> bool" where
  "is_bool (JBool b) = True"
| "is_bool _ = False"

subsection \<open>The members of an \<open>allOf\<close> list\<close>

text \<open>
  An object member of an \<open>allOf\<close> list is a dict whose \<open>type\<close> is \<open>object\<close> and whose
  \<open>properties\<close>, when present, is a dict; \<open>merge_all\<close> is the merge of the members'
  properties on string keys, which the loop of the resolver computes on Python keys.
\<close>

definition member_properties :: "json \<Rightarrow> (string \<times> json) list" where
  "member_properties schema =
     (case schema of
        JObj m \<Rightarrow> (case dict_get_or m ''properties'' (JObj []) of JObj p \<Rightarrow> p | _ \<Rightarrow> [])
      | _ \<Rightarrow> [])"

definition object_member :: "json \<Rightarrow> bool" where
  "object_member schema =
     (case schema of
        JObj m \<Rightarrow>
          dict_get m ''type'' = JStr ''object'' \<and>
          (case dict_get_or m ''properties'' (JObj []) of
             JObj p \<Rightarrow> distinct (map fst p)
           | _ \<Rightarrow> False)
      | _ \<Rightarrow> False)"

definition non_object_member :: "json \<Rightarrow> bool" where
  "non_object_member schema =
     (case schema of JObj m \<Rightarrow> dict_get m ''type'' \<noteq> JStr ''object'' | _ \<Rightarrow> False)"

definition str_keys :: "(string \<times> json) list \<Rightarrow> (json \<times> json) list" where
  "str_keys d = map (\<lambda>p. (JStr (fst p), snd p)) d"

definition merge_props :: "(string \<times> json) list \<Rightarrow> (string \<times> json) list \<Rightarrow> (string \<times> json) list" where
  "merge_props acc p = foldl (\<lambda>a kv. dict_set a (fst kv) (snd kv)) acc p"

fun merge_all :: "(string \<times> json) list \<Rightarrow> json list \<Rightarrow> (string \<times> json) list" where
  "merge_all acc [] = acc"
| "merge_all acc (s # ss) = merge_all (merge_props acc (member_properties s)) ss"


definition variant_kind :: "string \<Rightarrow> json" where
  "variant_kind v =
     (if v = ''int'' then JStr ''integer''
      else if v = ''float'' then JStr ''number''
      else if v = ''bool'' then JStr ''boolean''
      else if v = ''type(None)'' then JStr ''null''
      else if starts_with ''list['' v then JStr ''array''
      else if starts_with ''dict['' v then JStr ''object''
      else JStr ''string'')"

section \<open>The resolver, branch by branch\<close>

text \<open>
  The resolver's equation, read once for a fragment without \<open>$ref\<close> whose \<open>type\<close> is not
  a list of several kinds, and once for a fragment whose \<open>type\<close> is such a list.
\<close>

lemma gpt_obj_unfold:
  "\<not> has_key d ''$ref'' \<Longrightarrow> \<not> multi_type d \<Longrightarrow>
   get_python_type fs (JObj d) =
     (let param_type = single_type d in
      if param_type = JStr ''integer'' then Inr ''int''
      else if param_type = JStr ''number'' then Inr ''float''
      else if param_type = JStr ''boolean'' then Inr ''bool''
      else if param_type = JStr ''array'' then
        (let items = dict_get_or d ''items'' (JObj []) in
         if truthy items then
           (case get_python_type fs items of
              Inl e \<Rightarrow> Inl e
            | Inr item_type \<Rightarrow> Inr (''list['' @ item_type @ '']''))
         else Inr ''list[Any]'')
      else if param_type = JStr ''object'' then
        (let properties = dict_get_or d ''properties'' (JObj []) in
         if truthy properties then
           (case properties of
              JObj props \<Rightarrow>
                (case traverse (get_python_type fs) (map snd props) of
                   Inl e \<Rightarrow> Inl e
                 | Inr prop_types \<Rightarrow> Inr (dict_of_value_types (append_unique prop_types)))
            | _ \<Rightarrow> Inl AttributeError)
         else
           (let additional_props = dict_get d ''additionalProperties'' in
            if truthy additional_props \<and> (case additional_props of JObj a \<Rightarrow> True | _ \<Rightarrow> False) then
              (case get_python_type fs additional_props of
                 Inl e \<Rightarrow> Inl e
               | Inr value_type \<Rightarrow> Inr (''dict[str, '' @ value_type @ '']''))
            else Inr ''dict[str, Any]''))
      else if param_type = JStr ''null'' then Inr ''type(None)''
      else if has_key d ''enum'' then enum_type fs (dict_get d ''enum'')
      else if param_type = JStr ''string'' then Inr ''str''
      else if has_key d ''anyOf'' \<or> has_key d ''oneOf'' then
        (let schemas = dict_get_or d ''anyOf'' (dict_get_or d ''oneOf'' (JList [])) in
         if truthy schemas then
           (case py_iter schemas of
              Inl e \<Rightarrow> Inl e
            | Inr ss \<Rightarrow>
                (case traverse (get_python_type fs) ss of
                   Inl e \<Rightarrow> Inl e
                 | Inr union_types \<Rightarrow>
                     let unique_types = append_unique union_types in
                     if length unique_types = 1 then Inr (hd unique_types)
                     else Inr (''Union['' @ join '', '' unique_types @ '']'')))
         else Inr ''Any'')
      else if has_key d ''allOf'' then
        (let all_schemas = dict_get_or d ''allOf'' (JList []) in
         if truthy all_schemas then
           (case py_iter all_schemas of
              Inl e \<Rightarrow> Inl e
            | Inr ss \<Rightarrow>
                (case allof_loop ss [] of
                   Inl e \<Rightarrow> Inl e
                 | Inr (all_object, all_properties) \<Rightarrow>
                     if all_object \<and> all_properties \<noteq> [] then
                       (case traverse (get_python_type fs) (map snd all_properties) of
                          Inl e \<Rightarrow> Inl e
                        | Inr prop_types \<Rightarrow> Inr (dict_of_value_types (append_unique prop_types)))
                     else Inr ''dict[str, Any]''))
         else Inr ''dict[str, Any]'')
      else if param_type = JNull \<and> \<not> any_marker d then Inr ''Any''
      else Inr ''str'')"
  unfolding multi_type_def single_type_def
  by (subst get_python_type.simps) (simp only: json.case if_False if_True Let_def)


lemma traverse_Inr_nth:
  "traverse f xs = Inr ys \<Longrightarrow> length ys = length xs \<and> (\<forall>i<length xs. f (xs ! i) = Inr (ys ! i))"
proof (induction xs arbitrary: ys)
  case Nil
  then show ?case by simp
next
  case (Cons x xs)
  from Cons.prems obtain y ys' where y: "f x = Inr y" and t: "traverse f xs = Inr ys'" and ys: "ys = y # ys'"
    by (auto split: sum.splits)
  from Cons.IH [OF t] have "length ys' = length xs" and n: "\<forall>i<length xs. f (xs ! i) = Inr (ys' ! i)"
    by auto
  then show ?case using y ys by (auto simp: nth_Cons split: nat.splits)
qed

subsection \<open>Where the enum rule stands in the order\<close>

text \<open>
  C3 (as amended). The enum rule is not applied regardless of \<open>type\<close>: the comparisons
  of \<open>type\<close> with \<open>integer\<close>, \<open>number\<close>, \<open>boolean\<close>, \<open>array\<close>, \<open>object\<close> and \<open>null\<close> come
  first. For a fragment with an \<open>enum\<close> field, no \<open>$ref\<close>, and a \<open>type\<close> that is not a list
  of several kinds: if the type is none of those six (absent, \<open>string\<close>, or anything else)
  the result is what the enum rule gives; if it is \<open>integer\<close>, \<open>number\<close>, \<open>boolean\<close> or
  \<open>null\<close> the result is that primitive, whatever the enum lists.
\<close>

theorem enum_rule_after_type_gates:
  assumes "\<not> has_key d ''$ref''" and "\<not> multi_type d" and "has_key d ''enum''"
  shows "(single_type d \<notin> {JStr ''integer'', JStr ''number'', JStr ''boolean'', JStr ''array'',
                            JStr ''object'', JStr ''null''}
            \<longrightarrow> get_python_type fs (JObj d) = enum_type fs (dict_get d ''enum''))
       \<and> (single_type d = JStr ''integer'' \<longrightarrow> get_python_type fs (JObj d) = Inr ''int'')
       \<and> (single_type d = JStr ''number'' \<longrightarrow> get_python_type fs (JObj d) = Inr ''float'')
       \<and> (single_type d = JStr ''boolean'' \<longrightarrow> get_python_type fs (JObj d) = Inr ''bool'')
       \<and> (single_type d = JStr ''null'' \<longrightarrow> get_python_type fs (JObj d) = Inr ''type(None)'')"
proof -
  note u = gpt_obj_unfold [OF assms(1,2), of fs]
  have a: "single_type d \<notin> {JStr ''integer'', JStr ''number'', JStr ''boolean'', JStr ''array'',
                            JStr ''object'', JStr ''null''}
            \<Longrightarrow> get_python_type fs (JObj d) = enum_type fs (dict_get d ''enum'')"
    using assms(3) by (simp add: u Let_def)
  have b: "single_type d = JStr ''integer'' \<Longrightarrow> get_python_type fs (JObj d) = Inr ''int''"
    by (simp add: u Let_def)
  have c: "single_type d = JStr ''number'' \<Longrightarrow> get_python_type fs (JObj d) = Inr ''float''"
    by (simp add: u Let_def)
  have d: "single_type d = JStr ''boolean'' \<Longrightarrow> get_python_type fs (JObj d) = Inr ''bool''"
    by (simp add: u Let_def)
  have e: "single_type d = JStr ''null'' \<Longrightarrow> get_python_type fs (JObj d) = Inr ''type(None)''"
    by (simp add: u Let_def)
  from a b c d e show ?thesis by blast
qed

text \<open>A string enum with \<open>type: string\<close> resolves by the enum rule.\<close>

theorem enum_rule_after_type_gates_witness:
  "get_python_type (\<lambda>q. ''0.5'') (JObj [(''type'', JStr ''string''), (''enum'', JList [JStr ''a'', JStr ''b''])])
     = Inr (''Literal['' @ [CHR 0x22] @ ''a'' @ [CHR 0x22] @ '', '' @ [CHR 0x22] @ ''b'' @ [CHR 0x22] @ '']'')"
proof -
  let ?d = "[(''type'', JStr ''string''), (''enum'', JList [JStr ''a'', JStr ''b''])]"
  have 1: "\<not> has_key ?d ''$ref''" by (simp add: has_key_def)
  have 2: "\<not> multi_type ?d" by (simp add: multi_type_def dict_get_def)
  have 3: "has_key ?d ''enum''" by (simp add: has_key_def)
  have 4: "single_type ?d = JStr ''string''" by (simp add: single_type_def dict_get_def)
  have 5: "enum_type (\<lambda>q. ''0.5'') (dict_get ?d ''enum'')
     = Inr (''Literal['' @ [CHR 0x22] @ ''a'' @ [CHR 0x22] @ '', '' @ [CHR 0x22] @ ''b'' @ [CHR 0x22] @ '']'')"
    by (simp add: enum_type_def dict_get_def)
  from enum_rule_after_type_gates [OF 1 2 3, of "\<lambda>q. ''0.5''"] 4 5 show ?thesis by simp
qed

text \<open>
  The claim as stated fails on \<open>{"type": "integer", "enum": [1, 2]}\<close>: the result is \<open>int\<close>,
  not the enum result \<open>Literal[1, 2]\<close>.
\<close>

theorem enum_with_integer_type_counterexample:
  "get_python_type (\<lambda>q. ''0.5'') (JObj [(''type'', JStr ''integer''), (''enum'', JList [JInt 1, JInt 2])]) = Inr ''int''
   \<and> enum_type (\<lambda>q. ''0.5'') (JList [JInt 1, JInt 2]) = Inr ''Literal[1, 2]''"
  by code_simp

subsection \<open>Enums of mixed kinds\<close>

lemma enum_kind_range: "enum_kind v \<in> set [''Any'', ''float'', ''int'', ''str'']"
  by (cases v) auto

lemma kinds_sorted: "sorted [''Any'', ''float'', ''int'', ''str''] \<and> distinct [''Any'', ''float'', ''int'', ''str'']"
  by simp

lemma sort_kinds:
  "sort (remdups (map enum_kind vs)) = filter (\<lambda>n. n \<in> enum_kind ` set vs) [''Any'', ''float'', ''int'', ''str'']"
proof (rule sorted_distinct_set_unique)
  show "sorted (sort (remdups (map enum_kind vs)))" by simp
  show "distinct (sort (remdups (map enum_kind vs)))" by simp
  show "sorted (filter (\<lambda>n. n \<in> enum_kind ` set vs) [''Any'', ''float'', ''int'', ''str''])"
    using kinds_sorted sorted_wrt_filter [of "(\<le>)" "[''Any'', ''float'', ''int'', ''str'']"] by blast
  show "distinct (filter (\<lambda>n. n \<in> enum_kind ` set vs) [''Any'', ''float'', ''int'', ''str''])"
    by simp
  show "set (sort (remdups (map enum_kind vs))) =
        set (filter (\<lambda>n. n \<in> enum_kind ` set vs) [''Any'', ''float'', ''int'', ''str''])"
  proof -
    have "enum_kind ` set vs \<subseteq> set [''Any'', ''float'', ''int'', ''str'']"
      using enum_kind_range by blast
    then have "set (filter (\<lambda>n. n \<in> enum_kind ` set vs) [''Any'', ''float'', ''int'', ''str''])
                 = enum_kind ` set vs"
      unfolding set_filter by blast
    then show ?thesis by simp
  qed
qed

text \<open>
  C4 (as amended). When the enum rule applies to a list that is neither all strings, nor
  all integers, nor all numbers, the result is a \<open>Union\<close> with one variant per kind that
  occurs (\<open>str\<close>, \<open>int\<close>, \<open>float\<close>, and \<open>Any\<close> for everything else), without duplicates, in
  the alphabetical order of the variant names (\<open>sorted(type_set)\<close>), not in the order of
  first occurrence. Lists with a boolean are left out of the statement.
\<close>

theorem mixed_enum_union_sorted:
  assumes "\<not> has_key d ''$ref''" and "\<not> multi_type d"
    and "single_type d \<notin> {JStr ''integer'', JStr ''number'', JStr ''boolean'', JStr ''array'',
                            JStr ''object'', JStr ''null''}"
    and "map_of d ''enum'' = Some (JList vs)"
    and "\<not> list_all is_str vs" and "\<not> list_all is_int vs" and "\<not> list_all is_int_or_float vs"
    and "list_all (\<lambda>v. \<not> is_bool v) vs"
  shows "get_python_type fs (JObj d) =
           Inr (''Union['' @ join '', ''
                  (filter (\<lambda>n. n \<in> enum_kind ` set vs) [''Any'', ''float'', ''int'', ''str'']) @ '']'')"
proof -
  from assms(4) have e: "has_key d ''enum''" and g: "dict_get d ''enum'' = JList vs"
    by (simp_all add: has_key_def dict_get_def)
  from assms(5) have ne: "vs \<noteq> []" by auto
  have "get_python_type fs (JObj d) = enum_type fs (JList vs)"
    using assms(3) e g by (simp add: gpt_obj_unfold [OF assms(1,2)] Let_def)
  also have "\<dots> = Inr (''Union['' @ join '', '' (sort (remdups (map enum_kind vs))) @ '']'')"
    using ne assms(5-7) by (simp add: enum_type_def)
  finally show ?thesis by (simp only: sort_kinds)
qed

text \<open>A string, an integer, a null and another string: three variants, sorted.\<close>

theorem mixed_enum_union_sorted_witness:
  "get_python_type (\<lambda>q. ''0.5'') (JObj [(''enum'', JList [JStr ''a'', JInt 1, JNull, JStr ''b''])]) = Inr ''Union[Any, int, str]''"
proof -
  let ?d = "[(''enum'', JList [JStr ''a'', JInt 1, JNull, JStr ''b''])]"
  let ?vs = "[JStr ''a'', JInt 1, JNull, JStr ''b'']"
  have 1: "\<not> has_key ?d ''$ref''" by (simp add: has_key_def)
  have 2: "\<not> multi_type ?d" by (simp add: multi_type_def dict_get_def)
  have 3: "single_type ?d \<notin> {JStr ''integer'', JStr ''number'', JStr ''boolean'', JStr ''array'',
                            JStr ''object'', JStr ''null''}" by (simp add: single_type_def dict_get_def)
  have 4: "map_of ?d ''enum'' = Some (JList ?vs)" by simp
  have 5: "\<not> list_all is_str ?vs" "\<not> list_all is_int ?vs" "\<not> list_all is_int_or_float ?vs"
    "list_all (\<lambda>v. \<not> is_bool v) ?vs" by simp_all
  from mixed_enum_union_sorted [OF 1 2 3 4 5, of "\<lambda>q. ''0.5''"] show ?thesis by simp
qed

text \<open>
  The claim as stated fails on \<open>{"enum": ["a", 1]}\<close>: the string comes first in the list,
  and the result is \<open>Union[int, str]\<close>.
\<close>

theorem mixed_enum_order_counterexample:
  "get_python_type (\<lambda>q. ''0.5'') (JObj [(''enum'', JList [JStr ''a'', JInt 1])]) = Inr ''Union[int, str]''"
  by code_simp

subsection \<open>\<open>allOf\<close>\<close>

lemma setitem_str_keys: "setitem (str_keys m) (JStr k) v = str_keys (dict_set m k v)"
  by (induction m) (auto simp: str_keys_def)

lemma foldl_setitem_str_keys:
  "foldl (\<lambda>a p. setitem a (fst p) (snd p)) (str_keys m) (str_keys p) = str_keys (merge_props m p)"
proof (induction p arbitrary: m)
  case Nil
  then show ?case by (simp add: merge_props_def str_keys_def)
next
  case (Cons kv p)
  have "foldl (\<lambda>a p. setitem a (fst p) (snd p)) (str_keys m) (str_keys (kv # p))
        = foldl (\<lambda>a p. setitem a (fst p) (snd p)) (setitem (str_keys m) (JStr (fst kv)) (snd kv)) (str_keys p)"
    by (simp add: str_keys_def)
  also have "\<dots> = foldl (\<lambda>a p. setitem a (fst p) (snd p)) (str_keys (dict_set m (fst kv) (snd kv))) (str_keys p)"
    by (simp only: setitem_str_keys)
  also have "\<dots> = str_keys (merge_props (dict_set m (fst kv) (snd kv)) p)"
    by (rule Cons.IH)
  finally show ?case by (simp add: merge_props_def)
qed

lemma map_of_dict_set: "map_of (dict_set m k v) = (map_of m)(k \<mapsto> v)"
  by (induction m) (auto simp: fun_eq_iff)

lemma keys_dict_set: "fst ` set (dict_set m k v) = insert k (fst ` set m)"
  by (induction m) auto

lemma distinct_dict_set: "distinct (map fst m) \<Longrightarrow> distinct (map fst (dict_set m k v))"
proof (induction m)
  case Nil
  then show ?case by simp
next
  case (Cons p m)
  show ?case
  proof (cases "fst p = k")
    case True
    with Cons.prems show ?thesis by simp
  next
    case False
    with Cons show ?thesis using keys_dict_set [of m k v] by auto
  qed
qed

lemma distinct_merge_props: "distinct (map fst m) \<Longrightarrow> distinct (map fst (merge_props m p))"
  unfolding merge_props_def
  by (induction p arbitrary: m) (simp_all add: distinct_dict_set)

lemma map_of_merge_props:
  "distinct (map fst p) \<Longrightarrow> map_of (merge_props m p) = map_of m ++ map_of p"
proof (induction p arbitrary: m)
  case Nil
  then show ?case by (simp add: merge_props_def)
next
  case (Cons kv p)
  from Cons.prems have d: "distinct (map fst p)" and k: "fst kv \<notin> fst ` set p" by auto
  have "map_of (merge_props m (kv # p)) = map_of (merge_props (dict_set m (fst kv) (snd kv)) p)"
    by (simp add: merge_props_def)
  also have "\<dots> = map_of (dict_set m (fst kv) (snd kv)) ++ map_of p"
    by (rule Cons.IH [OF d])
  also have "\<dots> = (map_of m)(fst kv \<mapsto> snd kv) ++ map_of p"
    by (simp only: map_of_dict_set)
  also have "\<dots> = map_of m ++ map_of (kv # p)"
  proof -
    from k have "map_of p (fst kv) = None" by (simp add: map_of_eq_None_iff)
    then show ?thesis by (cases kv) (auto simp: fun_eq_iff map_add_def split: option.splits)
  qed
  finally show ?case .
qed

lemma allof_loop_objects:
  "list_all object_member ss \<Longrightarrow> allof_loop ss (str_keys acc) = Inr (True, str_keys (merge_all acc ss))"
proof (induction ss arbitrary: acc)
  case Nil
  then show ?case by simp
next
  case (Cons s ss)
  from Cons.prems obtain m p where s: "s = JObj m" and ty: "dict_get m ''type'' = JStr ''object''"
    and p: "dict_get_or m ''properties'' (JObj []) = JObj p"
    by (auto simp: object_member_def split: json.splits)
  have mp: "member_properties s = p" by (simp add: member_properties_def s p)
  have "dict_update (str_keys acc) (JObj p) = Inr (str_keys (merge_props acc p))"
    using foldl_setitem_str_keys [of acc p] by (simp add: dict_update_def update_items_def str_keys_def)
  with s ty p mp Cons.IH [of "merge_props acc p"] Cons.prems show ?case by simp
qed

lemma distinct_merge_all: "distinct (map fst acc) \<Longrightarrow> distinct (map fst (merge_all acc ss))"
  by (induction ss arbitrary: acc) (simp_all add: distinct_merge_props)

lemma map_of_merge_all:
  "list_all object_member ss \<Longrightarrow>
   map_of (merge_all acc ss) = foldl (++) (map_of acc) (map (\<lambda>s. map_of (member_properties s)) ss)"
proof (induction ss arbitrary: acc)
  case Nil
  then show ?case by simp
next
  case (Cons s ss)
  from Cons.prems have "distinct (map fst (member_properties s))"
    by (auto simp: object_member_def member_properties_def split: json.splits)
  then have "map_of (merge_props acc (member_properties s)) = map_of acc ++ map_of (member_properties s)"
    by (rule map_of_merge_props)
  with Cons show ?case by simp
qed

lemma allof_loop_non_object:
  "i < length ss \<Longrightarrow> \<forall>j<i. object_member (ss ! j) \<Longrightarrow> non_object_member (ss ! i) \<Longrightarrow>
   \<exists>props. allof_loop ss (str_keys acc) = Inr (False, props)"
proof (induction ss arbitrary: i acc)
  case Nil
  then show ?case by simp
next
  case (Cons s ss)
  show ?case
  proof (cases i)
    case 0
    with Cons.prems(3) show ?thesis by (auto simp: non_object_member_def split: json.splits)
  next
    case (Suc i')
    with Cons.prems have i': "i' < length ss" and pre: "\<forall>j<i'. object_member (ss ! j)"
      and non: "non_object_member (ss ! i')" and s0: "object_member s"
      by auto
    from s0 obtain m p where s: "s = JObj m" and ty: "dict_get m ''type'' = JStr ''object''"
      and p: "dict_get_or m ''properties'' (JObj []) = JObj p"
      by (auto simp: object_member_def split: json.splits)
    have "dict_update (str_keys acc) (JObj p) = Inr (str_keys (merge_props acc p))"
      using foldl_setitem_str_keys [of acc p] by (simp add: dict_update_def update_items_def str_keys_def)
    with s ty p Cons.IH [OF i' pre non, of "merge_props acc p"] show ?thesis by simp
  qed
qed


lemma gpt_all_of:
  assumes "\<not> has_key d ''$ref''" and "\<not> multi_type d"
    and "single_type d \<notin> {JStr ''integer'', JStr ''number'', JStr ''boolean'', JStr ''array'',
                            JStr ''object'', JStr ''null'', JStr ''string''}"
    and "\<not> has_key d ''enum''" and "\<not> has_key d ''anyOf''" and "\<not> has_key d ''oneOf''"
    and "map_of d ''allOf'' = Some (JList ss)"
  shows "get_python_type fs (JObj d) =
           (if ss \<noteq> [] then
              (case allof_loop ss [] of
                 Inl e \<Rightarrow> Inl e
               | Inr (all_object, all_properties) \<Rightarrow>
                   if all_object \<and> all_properties \<noteq> [] then
                     (case traverse (get_python_type fs) (map snd all_properties) of
                        Inl e \<Rightarrow> Inl e
                      | Inr prop_types \<Rightarrow> Inr (dict_of_value_types (append_unique prop_types)))
                   else Inr ''dict[str, Any]'')
            else Inr ''dict[str, Any]'')"
proof -
  from assms(7) have k: "has_key d ''allOf''" and g: "dict_get_or d ''allOf'' (JList []) = JList ss"
    by (simp_all add: has_key_def dict_get_or_def)
  show ?thesis
    using assms(3-6) k g by (simp add: gpt_obj_unfold [OF assms(1,2)] Let_def)
qed

text \<open>
  C6 (as amended). The \<open>allOf\<close> rule is reached only after the comparisons of \<open>type\<close>,
  \<open>string\<close> included, and after \<open>enum\<close>, \<open>anyOf\<close> and \<open>oneOf\<close>. For a fragment that
  reaches it with an \<open>allOf\<close> list: if every member is an object member, the result is
  the dict type over the resolved value types of the merged properties, de-duplicated,
  where the merged properties are the union of the members' properties and a later
  member overwrites an earlier one on the same name (\<open>dict[str, Any]\<close> when there are
  none); if the first member that is not an object member is a dict of another type,
  the result is \<open>dict[str, Any]\<close>.
\<close>

theorem allof_merged_object:
  assumes "\<not> has_key d ''$ref''" and "\<not> multi_type d"
    and "single_type d \<notin> {JStr ''integer'', JStr ''number'', JStr ''boolean'', JStr ''array'',
                            JStr ''object'', JStr ''null'', JStr ''string''}"
    and "\<not> has_key d ''enum''" and "\<not> has_key d ''anyOf''" and "\<not> has_key d ''oneOf''"
    and "map_of d ''allOf'' = Some (JList ss)"
  shows "(list_all object_member ss \<longrightarrow>
            (\<exists>merged. distinct (map fst merged)
               \<and> map_of merged = foldl (++) Map.empty (map (\<lambda>s. map_of (member_properties s)) ss)
               \<and> get_python_type fs (JObj d) =
                   (if merged = [] then Inr ''dict[str, Any]''
                    else (case traverse (get_python_type fs) (map snd merged) of
                            Inl e \<Rightarrow> Inl e
                          | Inr prop_types \<Rightarrow> Inr (dict_of_value_types (append_unique prop_types))))))
       \<and> ((\<exists>i<length ss. (\<forall>j<i. object_member (ss ! j)) \<and> non_object_member (ss ! i)) \<longrightarrow>
            get_python_type fs (JObj d) = Inr ''dict[str, Any]'')"
proof (intro conjI impI)
  note u = gpt_all_of [OF assms, of fs]
  assume all: "list_all object_member ss"
  let ?m = "merge_all [] ss"
  have loop: "allof_loop ss [] = Inr (True, str_keys ?m)"
    using allof_loop_objects [OF all, of "[]"] by (simp add: str_keys_def)
  have 1: "distinct (map fst ?m)" by (rule distinct_merge_all) simp
  have 2: "map_of ?m = foldl (++) Map.empty (map (\<lambda>s. map_of (member_properties s)) ss)"
    using map_of_merge_all [OF all, of "[]"] by simp
  have v: "map snd (str_keys ?m) = map snd ?m" by (simp add: str_keys_def comp_def)
  have e: "str_keys ?m = [] \<longleftrightarrow> ?m = []" by (simp add: str_keys_def)
  have nil: "ss = [] \<Longrightarrow> ?m = []" by simp
  have 3: "get_python_type fs (JObj d) =
             (if ?m = [] then Inr ''dict[str, Any]''
              else (case traverse (get_python_type fs) (map snd ?m) of
                      Inl e \<Rightarrow> Inl e
                    | Inr prop_types \<Rightarrow> Inr (dict_of_value_types (append_unique prop_types))))"
  proof (cases "ss = []")
    case True
    with nil show ?thesis by (simp add: u)
  next
    case False
    show ?thesis
    proof (cases "?m = []")
      case True
      with False e show ?thesis by (simp add: u loop)
    next
      case m: False
      with False e show ?thesis by (simp add: u loop v)
    qed
  qed
  from 1 2 3 show "\<exists>merged. distinct (map fst merged)
               \<and> map_of merged = foldl (++) Map.empty (map (\<lambda>s. map_of (member_properties s)) ss)
               \<and> get_python_type fs (JObj d) =
                   (if merged = [] then Inr ''dict[str, Any]''
                    else (case traverse (get_python_type fs) (map snd merged) of
                            Inl e \<Rightarrow> Inl e
                          | Inr prop_types \<Rightarrow> Inr (dict_of_value_types (append_unique prop_types))))"
    by blast
next
  note u = gpt_all_of [OF assms, of fs]
  assume "\<exists>i<length ss. (\<forall>j<i. object_member (ss ! j)) \<and> non_object_member (ss ! i)"
  then obtain i where i: "i < length ss" "\<forall>j<i. object_member (ss ! j)" "non_object_member (ss ! i)"
    by blast
  from allof_loop_non_object [OF i, of "[]"] obtain props where "allof_loop ss [] = Inr (False, props)"
    by (auto simp: str_keys_def)
  then show "get_python_type fs (JObj d) = Inr ''dict[str, Any]''"
    by (simp add: u)
qed

text \<open>Two object members that both declare \<open>a\<close>: the later declaration of \<open>a\<close> is resolved.\<close>

theorem allof_merged_object_witness:
  "list_all object_member
     [JObj [(''type'', JStr ''object''), (''properties'', JObj [(''a'', JObj [(''type'', JStr ''integer'')])])],
      JObj [(''type'', JStr ''object''),
            (''properties'', JObj [(''a'', JObj [(''type'', JStr ''string'')]), (''b'', JObj [])])]]
   \<and> (\<exists>merged. distinct (map fst merged)
          \<and> map_of merged = foldl (++) Map.empty (map (\<lambda>s. map_of (member_properties s))
               [JObj [(''type'', JStr ''object''), (''properties'', JObj [(''a'', JObj [(''type'', JStr ''integer'')])])],
                JObj [(''type'', JStr ''object''),
                      (''properties'', JObj [(''a'', JObj [(''type'', JStr ''string'')]), (''b'', JObj [])])]])
          \<and> Inr ''dict[str, Union[str, Any]]'' =
              (if merged = [] then Inr ''dict[str, Any]''
               else (case traverse (get_python_type (\<lambda>q. ''0.5'')) (map snd merged) of
                       Inl e \<Rightarrow> Inl e
                     | Inr prop_types \<Rightarrow> Inr (dict_of_value_types (append_unique prop_types)))))"
proof -
  let ?ss = "[JObj [(''type'', JStr ''object''), (''properties'', JObj [(''a'', JObj [(''type'', JStr ''integer'')])])],
      JObj [(''type'', JStr ''object''),
            (''properties'', JObj [(''a'', JObj [(''type'', JStr ''string'')]), (''b'', JObj [])])]]"
  let ?d = "[(''allOf'', JList ?ss)]"
  have 1: "\<not> has_key ?d ''$ref''" by (simp add: has_key_def)
  have 2: "\<not> multi_type ?d" by (simp add: multi_type_def dict_get_def)
  have 3: "single_type ?d \<notin> {JStr ''integer'', JStr ''number'', JStr ''boolean'', JStr ''array'',
                            JStr ''object'', JStr ''null'', JStr ''string''}"
    by (simp add: single_type_def dict_get_def)
  have 4: "\<not> has_key ?d ''enum''" "\<not> has_key ?d ''anyOf''" "\<not> has_key ?d ''oneOf''"
    by (simp_all add: has_key_def)
  have 5: "map_of ?d ''allOf'' = Some (JList ?ss)" by simp
  have 6: "list_all object_member ?ss"
    by (simp add: object_member_def dict_get_def dict_get_or_def)
  have 7: "get_python_type (\<lambda>q. ''0.5'') (JObj ?d) = Inr ''dict[str, Union[str, Any]]''"
    by code_simp
  from allof_merged_object [OF 1 2 3 4 5, of "\<lambda>q. ''0.5''"] 6 7 show ?thesis by simp
qed

text \<open>
  The claim as stated fails on a fragment with \<open>type: string\<close> and an \<open>allOf\<close> list of
  object members: the result is \<open>str\<close>.
\<close>

theorem allof_after_string_counterexample:
  "get_python_type (\<lambda>q. ''0.5'')
     (JObj [(''type'', JStr ''string''),
            (''allOf'', JList [JObj [(''type'', JStr ''object''),
                                     (''properties'', JObj [(''a'', JObj [(''type'', JStr ''integer'')])])]])])
   = Inr ''str''"
  by code_simp

subsection \<open>A list of kinds\<close>






lemma dict_of_value_types_kind: "variant_kind (dict_of_value_types ts) = JStr ''object''"
  by (simp add: dict_of_value_types_def variant_kind_def)













section \<open>Totality of the resolver\<close>

text \<open>
  C9. The resolver is claimed to return a type for every schema fragment and never to
  raise. \<open>get_python_type\<close> terminates on every input (its termination is proved above),
  but it raises on a fragment whose \<open>items\<close> is a list of schemas (tuple validation):
  the list is truthy, so it is resolved as if it were a schema, and a list has no
  \<open>get\<close>. The sibling branch for \<open>additionalProperties\<close> checks \<open>isinstance(_, dict)\<close>
  before it recurses; the branches for \<open>items\<close> and \<open>properties\<close> do not.
\<close>

theorem get_python_type_tuple_items_raises:
  "get_python_type fs
     (JObj [(''type'', JStr ''array''),
            (''items'', JList [JObj [(''type'', JStr ''number'')], JObj [(''type'', JStr ''number'')]])])
   = Inl AttributeError"
  by code_simp

section \<open>Required parameters and defaults\<close>

lemma traverse_Inr_set:
  "traverse f xs = Inr ys \<Longrightarrow> y \<in> set ys \<Longrightarrow> \<exists>x\<in>set xs. f x = Inr y"
proof (induction xs arbitrary: ys)
  case Nil
  then show ?case by simp
next
  case (Cons x xs)
  from Cons.prems(1) obtain z zs where z: "f x = Inr z" and t: "traverse f xs = Inr zs" and ys: "ys = z # zs"
    by (auto split: sum.splits)
  with Cons.prems(2) Cons.IH [OF t] show ?case by auto
qed

lemma traverse_Inr_image:
  "traverse f xs = Inr ys \<Longrightarrow> x \<in> set xs \<Longrightarrow> \<exists>y\<in>set ys. f x = Inr y"
proof (induction xs arbitrary: ys)
  case Nil
  then show ?case by simp
next
  case (Cons a xs)
  from Cons.prems(1) obtain z zs where z: "f a = Inr z" and t: "traverse f xs = Inr zs" and ys: "ys = z # zs"
    by (auto split: sum.splits)
  with Cons.prems(2) Cons.IH [OF t] show ?case by auto
qed

lemma param_def_of_shape:
  assumes "param_def_of fs required param_name param_info = Inr p"
  shows "pname p = param_name
       \<and> (is_required p \<longleftrightarrow> py_in param_name required = Inr True)
       \<and> (is_required p \<longrightarrow> default_of p = None)"
  using assms unfolding param_def_of_def
  by (auto simp: Let_def split: sum.splits bool.splits json.splits if_splits)

text \<open>
  C2 (as amended). The \<open>required\<close> list decides: a property named in it becomes a required
  parameter and its declared default is dropped; a property not named in it is never
  required. Hence no parameter is required and has a default, but a declared default
  does not make a parameter optional.
\<close>

theorem required_list_decides:
  assumes "build_params fs schema = Inr ps" and "p \<in> set ps"
  shows "(is_required p \<longleftrightarrow> py_in (pname p) (dict_get_or schema ''required'' (JList [])) = Inr True)
       \<and> (is_required p \<longrightarrow> default_of p = None)"
proof -
  let ?req = "dict_get_or schema ''required'' (JList [])"
  from assms(1) obtain props where
    t: "traverse (\<lambda>q. param_def_of fs ?req (fst q) (snd q)) (filter (\<lambda>q. fst q \<noteq> ''ctx'') props) = Inr ps"
    by (auto simp: build_params_def Let_def split: json.splits)
  from traverse_Inr_set [OF t assms(2)] obtain q where "param_def_of fs ?req (fst q) (snd q) = Inr p"
    by blast
  from param_def_of_shape [OF this] show ?thesis by simp
qed

text \<open>A property with default 5 that \<open>required\<close> names, and an optional one with a default.\<close>

theorem required_list_decides_witness:
  "build_params (\<lambda>q. ''0.5'')
     [(''properties'', JObj [(''n'', JObj [(''type'', JStr ''integer''), (''default'', JInt 5)]),
                             (''m'', JObj [(''type'', JStr ''string''), (''default'', JStr ''a'')])]),
      (''required'', JList [JStr ''n''])]
     = Inr [Required ''n'' ''int'', Defaulted ''m'' ''str'' (DQuoted ''a'')]
   \<and> is_required (Required ''n'' ''int'')
   \<and> py_in ''n'' (JList [JStr ''n'']) = Inr True
   \<and> default_of (Required ''n'' ''int'') = None"
proof -
  let ?schema = "[(''properties'', JObj [(''n'', JObj [(''type'', JStr ''integer''), (''default'', JInt 5)]),
                             (''m'', JObj [(''type'', JStr ''string''), (''default'', JStr ''a'')])]),
      (''required'', JList [JStr ''n''])]"
  have 1: "build_params (\<lambda>q. ''0.5'') ?schema = Inr [Required ''n'' ''int'', Defaulted ''m'' ''str'' (DQuoted ''a'')]"
    by code_simp
  have 2: "Required ''n'' ''int'' \<in> set [Required ''n'' ''int'', Defaulted ''m'' ''str'' (DQuoted ''a'')]"
    by simp
  from required_list_decides [OF 1 2] 1 show ?thesis by (simp add: dict_get_or_def)
qed

text \<open>
  The claim as stated fails on a property \<open>n\<close> with \<open>default: 5\<close> that \<open>required\<close> names:
  the parameter is \<open>n: int\<close>, required, with no default.
\<close>

theorem required_with_default_counterexample:
  "build_params (\<lambda>q. ''0.5'')
     [(''properties'', JObj [(''n'', JObj [(''type'', JStr ''integer''), (''default'', JInt 5)])]),
      (''required'', JList [JStr ''n''])]
     = Inr [Required ''n'' ''int'']"
  by code_simp

section \<open>What a stub forwards\<close>

lemma bind_args_entry:
  assumes "bind_args ps kwargs = Inr bound" and "p \<in> set ps"
  shows "\<exists>b\<in>set bound. bind_param kwargs p = Inr b"
proof -
  from assms(1) have "traverse (bind_param kwargs) ps = Inr bound"
    by (auto simp: bind_args_def split: if_splits)
  from traverse_Inr_image [OF this assms(2)] show ?thesis .
qed

lemma bind_param_fst: "bind_param kwargs p = Inr b \<Longrightarrow> fst b = p_name p"
  by (auto simp: bind_param_def split: option.splits)

lemma bind_args_keys:
  assumes "bind_args ps kwargs = Inr bound"
  shows "map fst bound = map p_name ps"
proof -
  from assms have t: "traverse (bind_param kwargs) ps = Inr bound"
    by (auto simp: bind_args_def split: if_splits)
  from traverse_Inr_nth [OF t] have l: "length bound = length ps"
    and n: "\<forall>i<length ps. bind_param kwargs (ps ! i) = Inr (bound ! i)" by auto
  show ?thesis
  proof (rule nth_equalityI)
    show "length (map fst bound) = length (map p_name ps)" using l by simp
  next
    fix i assume "i < length (map fst bound)"
    with l n have "bind_param kwargs (ps ! i) = Inr (bound ! i)" and "i < length ps" by auto
    with l show "map fst bound ! i = map p_name ps ! i" by (simp add: bind_param_fst)
  qed
qed

lemma bind_args_given:
  assumes "bind_args ps kwargs = Inr bound" and "p \<in> set ps" and "map_of kwargs (p_name p) = Some v"
  shows "(p_name p, v) \<in> set bound"
proof -
  from bind_args_entry [OF assms(1,2)] obtain b where "b \<in> set bound" "bind_param kwargs p = Inr b"
    by blast
  with assms(3) show ?thesis by (simp add: bind_param_def)
qed


lemma call_args_no_none: "JNull \<notin> snd ` set (call_args bound)"
  by (auto simp: call_args_def)

lemma call_args_drops_none:
  assumes "distinct (map fst bound)" and "(k, JNull) \<in> set bound"
  shows "k \<notin> fst ` set (call_args bound)"
proof
  assume "k \<in> fst ` set (call_args bound)"
  then obtain v where "(k, v) \<in> set bound" and "v \<noteq> JNull" by (auto simp: call_args_def)
  with assms show False using eq_key_imp_eq_value by metis
qed

lemma call_stub_forwarding:
  assumes "call_stub ep s kwargs w = Reads (w', r)" and "trace w' \<noteq> trace w"
  shows "\<exists>bound. bind_args (stub_params s) kwargs = Inr bound
           \<and> connect ep = None
           \<and> ''MCPClient'' \<notin> set (map p_name (stub_params s))
           \<and> w' = w\<lparr>trace := trace w @ [Open (sessions w),
                        CallTool (sessions w) (stub_name s) (call_args bound), Close (sessions w)],
                     sessions := Suc (sessions w)\<rparr>
           \<and> r = call_tool ep (stub_name s) (call_args bound)"
proof (cases "bind_args (stub_params s) kwargs")
  case (Inl e)
  with assms show ?thesis by (auto simp: call_stub_def split: if_splits)
next
  case (Inr bound)
  show ?thesis
  proof (cases "connect ep")
    case (Some e)
    with Inr assms show ?thesis by (auto simp: call_stub_def with_client_def split: if_splits)
  next
    case None
    with Inr assms show ?thesis
      by (auto simp: call_stub_def with_client_def emit_def Let_def split: if_splits)
  qed
qed

lemma call_stub_events:
  assumes "call_stub ep s kwargs w = Reads (w', r)"
    and "CallTool sid nm payload \<in> set (trace w')" and "CallTool sid nm payload \<notin> set (trace w)"
  shows "\<exists>bound. bind_args (stub_params s) kwargs = Inr bound \<and> payload = call_args bound"
proof -
  from assms(2,3) have "trace w' \<noteq> trace w" by auto
  from call_stub_forwarding [OF assms(1) this] obtain bound where
    b: "bind_args (stub_params s) kwargs = Inr bound"
    and w': "w' = w\<lparr>trace := trace w @ [Open (sessions w),
                        CallTool (sessions w) (stub_name s) (call_args bound), Close (sessions w)],
                     sessions := Suc (sessions w)\<rparr>" by blast
  from w' assms(2,3) have "payload = call_args bound" by auto
  with b show ?thesis by blast
qed








text \<open>
  C10. The filter of the stub applies to every parameter: the payload of the call a stub
  makes holds no \<open>None\<close> value, and every parameter that is bound to \<open>None\<close> (a required
  one included, and one to which the caller passed \<open>None\<close>) has no key in it.
\<close>

theorem none_values_never_forwarded:
  assumes "distinct (map p_name (stub_params s))"
    and "call_stub ep s kwargs w = Reads (w', r)"
    and "CallTool sid nm payload \<in> set (trace w')" and "CallTool sid nm payload \<notin> set (trace w)"
  shows "\<exists>bound. bind_args (stub_params s) kwargs = Inr bound
           \<and> payload = call_args bound
           \<and> JNull \<notin> snd ` set payload
           \<and> (\<forall>k. (k, JNull) \<in> set bound \<longrightarrow> k \<notin> fst ` set payload)
           \<and> (\<forall>p\<in>set (stub_params s). map_of kwargs (p_name p) = Some JNull \<longrightarrow> p_name p \<notin> fst ` set payload)"
proof -
  from call_stub_events [OF assms(2-4)] obtain bound where b: "bind_args (stub_params s) kwargs = Inr bound"
    and p: "payload = call_args bound" by blast
  from bind_args_keys [OF b] assms(1) have d: "distinct (map fst bound)" by simp
  have 1: "JNull \<notin> snd ` set payload" unfolding p by (rule call_args_no_none)
  have 2: "k \<notin> fst ` set payload" if "(k, JNull) \<in> set bound" for k
    unfolding p using d that by (rule call_args_drops_none)
  have 3: "p_name q \<notin> fst ` set payload" if "q \<in> set (stub_params s)" "map_of kwargs (p_name q) = Some JNull" for q
    using bind_args_given [OF b that] by (rule 2)
  from b p 1 2 3 show ?thesis by blast
qed

text \<open>
  A required \<open>a\<close> and an optional \<open>c\<close> are passed \<open>None\<close>, \<open>b\<close> is passed a string: only
  \<open>b\<close> is forwarded.
\<close>

theorem none_values_never_forwarded_witness:
  "call_stub \<lparr>connect = None, list_tools = Inr [], call_tool = (\<lambda>n a. Inr JNull)\<rparr>
        \<lparr>stub_name = ''x'', stub_doc = ''d'',
         stub_params = [Param ''a'' ''int'' None, Param ''b'' ''Optional[str]'' (Some JNull),
                        Param ''c'' ''Optional[str]'' (Some JNull)]\<rparr>
        [(''a'', JNull), (''b'', JStr ''v''), (''c'', JNull)] \<lparr>trace = [], sessions = 0\<rparr>
     = Reads (\<lparr>trace = [Open 0, CallTool 0 ''x'' [(''b'', JStr ''v'')], Close 0], sessions = 1\<rparr>, Inr JNull)
   \<and> (\<exists>bound. bind_args [Param ''a'' ''int'' None, Param ''b'' ''Optional[str]'' (Some JNull),
                        Param ''c'' ''Optional[str]'' (Some JNull)]
                  [(''a'', JNull), (''b'', JStr ''v''), (''c'', JNull)] = Inr bound
           \<and> [(''b'', JStr ''v'')] = call_args bound
           \<and> JNull \<notin> snd ` set [(''b'', JStr ''v'')]
           \<and> (\<forall>k. (k, JNull) \<in> set bound \<longrightarrow> k \<notin> fst ` set [(''b'', JStr ''v'')])
           \<and> (\<forall>p\<in>set [Param ''a'' ''int'' None, Param ''b'' ''Optional[str]'' (Some JNull),
                        Param ''c'' ''Optional[str]'' (Some JNull)].
                 map_of [(''a'', JNull), (''b'', JStr ''v''), (''c'', JNull)] (p_name p) = Some JNull \<longrightarrow>
                 p_name p \<notin> fst ` set [(''b'', JStr ''v'')]))"
proof -
  let ?ep = "\<lparr>connect = None, list_tools = Inr [], call_tool = (\<lambda>n a. Inr JNull)\<rparr>"
  let ?ps = "[Param ''a'' ''int'' None, Param ''b'' ''Optional[str]'' (Some JNull),
                        Param ''c'' ''Optional[str]'' (Some JNull)]"
  let ?s = "\<lparr>stub_name = ''x'', stub_doc = ''d'', stub_params = ?ps\<rparr>"
  let ?kw = "[(''a'', JNull), (''b'', JStr ''v''), (''c'', JNull)]"
  let ?w = "\<lparr>trace = [], sessions = 0\<rparr>"
  let ?w' = "\<lparr>trace = [Open 0, CallTool 0 ''x'' [(''b'', JStr ''v'')], Close 0], sessions = 1\<rparr>"
  have 1: "distinct (map p_name (stub_params ?s))" by simp
  have 2: "call_stub ?ep ?s ?kw ?w = Reads (?w', Inr JNull)" by code_simp
  have 3: "CallTool 0 ''x'' [(''b'', JStr ''v'')] \<in> set (trace ?w')"
    "CallTool 0 ''x'' [(''b'', JStr ''v'')] \<notin> set (trace ?w)" by simp_all
  from none_values_never_forwarded [OF 1 2 3] have
    "\<exists>bound. bind_args (stub_params ?s) ?kw = Inr bound
           \<and> [(''b'', JStr ''v'')] = call_args bound
           \<and> JNull \<notin> snd ` set [(''b'', JStr ''v'')]
           \<and> (\<forall>k. (k, JNull) \<in> set bound \<longrightarrow> k \<notin> fst ` set [(''b'', JStr ''v'')])
           \<and> (\<forall>p\<in>set (stub_params ?s). map_of ?kw (p_name p) = Some JNull \<longrightarrow>
                 p_name p \<notin> fst ` set [(''b'', JStr ''v'')])" .
  then have "\<exists>bound. bind_args ?ps ?kw = Inr bound
           \<and> [(''b'', JStr ''v'')] = call_args bound
           \<and> JNull \<notin> snd ` set [(''b'', JStr ''v'')]
           \<and> (\<forall>k. (k, JNull) \<in> set bound \<longrightarrow> k \<notin> fst ` set [(''b'', JStr ''v'')])
           \<and> (\<forall>p\<in>set ?ps. map_of ?kw (p_name p) = Some JNull \<longrightarrow> p_name p \<notin> fst ` set [(''b'', JStr ''v'')])"
    by (simp only: stub.simps)
  with 2 show ?thesis by (rule conjI)
qed

section \<open>Sessions and registration\<close>

text \<open>
  C8. Every stub is claimed to open a session of its own on every invocation, to make
  its one call in it and to close it. The body of the generated function reaches the
  client class by the name \<open>MCPClient\<close>, and the parameters of the tool are the local
  names of that function. A tool with a parameter called \<open>MCPClient\<close> compiles, is
  published, and on every invocation calls the argument instead of the class: it raises
  \<open>TypeError\<close>, opens no session and forwards nothing.
\<close>

theorem captured_client_name_opens_no_session:
  "build_stub (\<lambda>q. ''0.5'')
     \<lparr>tool_name = ''search'', tool_description = ''d'',
      inputSchema = [(''properties'', JObj [(''MCPClient'', JObj [(''type'', JStr ''string'')])])]\<rparr>
     = Reads (Inr \<lparr>stub_name = ''search'', stub_doc = ''d'',
                   stub_params = [Param ''MCPClient'' ''Optional[str]'' (Some JNull)]\<rparr>)
   \<and> call_stub \<lparr>connect = None, list_tools = Inr [], call_tool = (\<lambda>n a. Inr JNull)\<rparr>
        \<lparr>stub_name = ''search'', stub_doc = ''d'',
         stub_params = [Param ''MCPClient'' ''Optional[str]'' (Some JNull)]\<rparr>
        [(''MCPClient'', JStr ''a'')] \<lparr>trace = [], sessions = 0\<rparr>
     = Reads (\<lparr>trace = [], sessions = 0\<rparr>, Inl TypeError)"
  by code_simp








end
